theory Spec2Isabelle
  imports Main "HOL-Library.Word"
begin

unbundle bit_operations_syntax

section \<open>Data model\<close>

text \<open>
  The driver keeps a one-bit-per-pixel framebuffer of \<open>WIDTH * ((HEIGHT + 7) / 8)\<close>
  bytes, a rotation, and (in the dirty-window revision of \<open>display()\<close>) a dirty
  window \<open>window_x1 .. window_y2\<close>. The I2C transport (\<open>Adafruit_I2CDevice\<close>) is an
  external library: it is modelled by what the driver can observe of it, namely the size
  it reports, the result of each write, and the transfers it was asked to perform.
\<close>

type_synonym byte = "8 word"

text \<open>
  C has undefined behaviour where HOL has an unspecified value. Each place where the
  source can dereference a null pointer, index outside the framebuffer or divide by zero
  is a branch of the model that returns one of these faults.
\<close>

datatype fault = NullPointer | OutOfBounds | DivideByZero

text \<open>
  One call of \<open>i2c_dev->write\<close>: the bytes sent ahead of the payload (the
  data/command discriminator, when the five-argument overload is used), the payload, and
  the boolean the call returned.
\<close>

datatype xfer = Xfer (xprefix: "byte list") (xdata: "byte list") (xok: bool)

text \<open>
  \<open>maxBufferSize\<close> is what \<open>maxBufferSize()\<close> returns (a \<open>size_t\<close>). \<open>acks\<close> is the
  behaviour of the wire: the results of the coming writes, in order (a write after the
  list is exhausted succeeds). \<open>sent\<close> is the trace of writes so far, oldest first.
\<close>

record i2c_device =
  maxBufferSize :: nat
  acks :: "bool list"
  sent :: "xfer list"
  clock :: nat

text \<open>
  The display object. \<open>WIDTH\<close>, \<open>HEIGHT\<close>, \<open>width\<close> (\<open>_width\<close>), \<open>height\<close>
  (\<open>_height\<close>) and \<open>rotation\<close> are the fields of the \<open>Adafruit_GFX\<close> base class
  (all \<open>int16_t\<close> but \<open>rotation\<close>, a \<open>uint8_t\<close>); \<open>buffer\<close> is the framebuffer,
  the empty list standing for the \<open>NULL\<close> pointer before allocation; \<open>i2c_dev\<close> is the
  transport pointer, \<open>None\<close> for \<open>NULL\<close>; the window fields are the dirty rectangle
  read and reset by the dirty-window \<open>display()\<close>. The 16-bit signed fields and the
  \<open>int16_t\<close> coordinates are integers: with \<open>WIDTH\<close> and \<open>HEIGHT\<close> at most 255
  (the constructor takes them as \<open>uint8_t\<close>) no signed expression of the pixel code
  leaves the 16-bit range, and every conversion to an unsigned type is written out with
  its reduction.
\<close>

record oled =
  WIDTH :: int
  HEIGHT :: int
  width :: int
  height :: int
  rotation :: nat
  buffer :: "byte list"
  i2c_dev :: "i2c_device option"
  window_x1 :: int
  window_y1 :: int
  window_x2 :: int
  window_y2 :: int
  i2c_preclk :: nat
  i2c_postclk :: nat

subsection \<open>Constants of the header\<close>

definition SH110X_BLACK :: nat where "SH110X_BLACK = 0"
definition SH110X_WHITE :: nat where "SH110X_WHITE = 1"
definition SH110X_INVERSE :: nat where "SH110X_INVERSE = 2"
definition SH110X_SETPAGEADDR :: nat where "SH110X_SETPAGEADDR = 0xB0"

subsection \<open>C arithmetic\<close>

text \<open>
  Integer division of C truncates towards zero; conversion to \<open>uint8_t\<close> and
  \<open>uint16_t\<close> reduces modulo \<open>2^8\<close> and \<open>2^16\<close>.
\<close>

definition cdiv :: "int \<Rightarrow> int \<Rightarrow> int" where
  "cdiv a b = (if 0 \<le> a then a div b else - ((- a) div b))"

definition u8 :: "int \<Rightarrow> nat" where
  "u8 v = nat (v mod 256)"

definition u16 :: "int \<Rightarrow> nat" where
  "u16 v = nat (v mod 65536)"

section \<open>Pixel access (Adafruit_SH110X.cpp)\<close>

text \<open>
  The macro \<open>sh110x_swap(a, b)\<close>: \<open>a ^= b, b ^= a, a ^= b\<close>, on two distinct
  variables.
\<close>

definition sh110x_swap :: "int \<times> int \<Rightarrow> int \<times> int" where
  "sh110x_swap ab =
     (let a = fst ab; b = snd ab;
          a = a XOR b;
          b = b XOR a;
          a = a XOR b
      in (a, b))"

text \<open>
  The \<open>switch(getRotation())\<close> block that \<open>drawPixel\<close> and \<open>getPixel\<close> both open
  with: it rewrites the local \<open>x\<close> and \<open>y\<close>. Rotation 0 (and any value without a
  case) leaves them as they are.
\<close>

definition rotate_xy :: "oled \<Rightarrow> int \<times> int \<Rightarrow> int \<times> int" where
  "rotate_xy s xy =
     (if rotation s = 1 then
        (let (x, y) = sh110x_swap xy in (WIDTH s - x - 1, y))
      else if rotation s = 2 then
        (let (x, y) = xy in (WIDTH s - x - 1, HEIGHT s - y - 1))
      else if rotation s = 3 then
        (let (x, y) = sh110x_swap xy in (x, HEIGHT s - y - 1))
      else xy)"

text \<open>The index expression \<open>x + (y/8)*WIDTH\<close> and the mask \<open>1 << (y&7)\<close>.\<close>

definition byte_index :: "oled \<Rightarrow> int \<times> int \<Rightarrow> int" where
  "byte_index s xy = fst xy + cdiv (snd xy) 8 * WIDTH s"

definition bit_mask :: "int \<times> int \<Rightarrow> byte" where
  "bit_mask xy = push_bit (nat (snd xy AND 7)) 1"

text \<open>
  A read-modify-write of \<open>buffer[i]\<close>. An index outside the allocated buffer (also any
  index when \<open>buffer\<close> is \<open>NULL\<close>) is a fault.
\<close>

definition modify_byte :: "oled \<Rightarrow> int \<Rightarrow> (byte \<Rightarrow> byte) \<Rightarrow> fault + oled" where
  "modify_byte s i f =
     (if 0 \<le> i \<and> nat i < length (buffer s)
      then Inr (s\<lparr>buffer := (buffer s)[nat i := f (buffer s ! nat i)]\<rparr>)
      else Inl OutOfBounds)"

text \<open>
  \<open>drawPixel(x, y, color)\<close>. The masks fit in eight bits, so the \<open>int\<close> promotion of
  \<open>|=\<close>, \<open>&= ~\<close> and \<open>^=\<close> followed by the store into a \<open>uint8_t\<close> is the bytewise
  operation. The \<open>switch(color)\<close> has no default: another colour touches nothing.
\<close>

definition drawPixel :: "oled \<Rightarrow> int \<Rightarrow> int \<Rightarrow> nat \<Rightarrow> fault + oled" where
  "drawPixel s x y color =
     (if x \<ge> 0 \<and> x < width s \<and> y \<ge> 0 \<and> y < height s then
        (let xy = rotate_xy s (x, y) in
         if color = SH110X_WHITE then
           modify_byte s (byte_index s xy) (\<lambda>b. b OR bit_mask xy)
         else if color = SH110X_BLACK then
           modify_byte s (byte_index s xy) (\<lambda>b. b AND NOT (bit_mask xy))
         else if color = SH110X_INVERSE then
           modify_byte s (byte_index s xy) (\<lambda>b. b XOR bit_mask xy)
         else Inr s)
      else Inr s)"


text \<open>
  \<open>getPixel(x, y)\<close>: the masked byte converted to \<open>boolean\<close>, that is, whether it is
  non-zero; \<open>false\<close> out of bounds.
\<close>

definition getPixel :: "oled \<Rightarrow> int \<Rightarrow> int \<Rightarrow> fault + bool" where
  "getPixel s x y =
     (if x \<ge> 0 \<and> x < width s \<and> y \<ge> 0 \<and> y < height s then
        (let xy = rotate_xy s (x, y); i = byte_index s xy in
         if 0 \<le> i \<and> nat i < length (buffer s)
         then Inr ((buffer s ! nat i) AND bit_mask xy \<noteq> 0)
         else Inl OutOfBounds)
      else Inr False)"

section \<open>The transport (Adafruit_I2CDevice, as the driver sees it)\<close>

text \<open>
  \<open>write(buffer, len)\<close> and \<open>write(buffer, len, true, prefix, prefix_len)\<close>: one
  transaction, appended to the trace with its result; the result is the next entry of
  \<open>acks\<close>. \<open>setSpeed(hz)\<close> changes the clock and sends nothing.
\<close>

definition i2c_write :: "i2c_device \<Rightarrow> byte list \<Rightarrow> byte list \<Rightarrow> bool \<times> i2c_device" where
  "i2c_write d pre payload =
     (let ok = (case acks d of [] \<Rightarrow> True | a # _ \<Rightarrow> a)
      in (ok, d\<lparr>acks := tl (acks d), sent := sent d @ [Xfer pre payload ok]\<rparr>))"

definition setSpeed :: "i2c_device \<Rightarrow> nat \<Rightarrow> i2c_device" where
  "setSpeed d hz = d\<lparr>clock := hz\<rparr>"

section \<open>Refresh (display)\<close>

text \<open>
  The \<open>while (bytes_remaining)\<close> loop: \<open>to_write = min(bytes_remaining, cap)\<close>,
  one write of \<open>to_write\<close> bytes from \<open>ptr\<close> behind the discriminator byte
  \<open>dc_byte = 0x40\<close>, then \<open>ptr += to_write; bytes_remaining -= to_write\<close>. With a cap
  of zero the loop never ends, so it is a partial function. Reading past the end of the
  buffer is a fault. The loop returns the device and the final \<open>ptr\<close>.
\<close>

partial_function (option) send_page_data ::
  "byte list \<Rightarrow> nat \<Rightarrow> i2c_device \<Rightarrow> nat \<Rightarrow> nat \<Rightarrow> (fault + i2c_device \<times> nat) option" where
  "send_page_data buf cap d ptr bytes_remaining =
     (if bytes_remaining = 0 then Some (Inr (d, ptr))
      else
        let to_write = min bytes_remaining cap in
        if length buf < ptr + to_write then Some (Inl OutOfBounds)
        else send_page_data buf cap
               (snd (i2c_write d [0x40] (take to_write (drop ptr buf))))
               (ptr + to_write) (bytes_remaining - to_write))"

declare send_page_data.simps [code]

text \<open>
  The \<open>for (uint8_t p = first_page; p < pages; p++)\<close> loop. The locals computed
  before the loop are parameters. \<open>bytes_remaining\<close> is a \<open>uint8_t\<close>: both
  subtractions wrap modulo 256. \<open>(uint16_t)p * (uint16_t)bytes_per_page\<close> is at most
  \<open>255 * 255\<close> and does not wrap; \<open>p++\<close> does not wrap either, since
  \<open>p < pages \<le> 255\<close>. The four command bytes are stored into a \<open>uint8_t\<close> array.
  The results of both \<open>write\<close> calls are discarded.
\<close>

function flush_pages ::
  "oled \<Rightarrow> nat \<Rightarrow> nat \<Rightarrow> nat \<Rightarrow> nat \<Rightarrow> nat \<Rightarrow> i2c_device \<Rightarrow> nat \<Rightarrow> (fault + i2c_device) option" where
  "flush_pages s pages bytes_per_page page_start page_end maxbuff d p =
     (if p < pages then
        let bytes_remaining = bytes_per_page;
            ptr = p * bytes_per_page;
            ptr = ptr + page_start;
            bytes_remaining = u8 (int bytes_remaining - int page_start);
            bytes_remaining = u8 (int bytes_remaining - ((WIDTH s - 1) - int page_end));
            cmd = [0x00, of_nat (SH110X_SETPAGEADDR + p),
                   of_nat (0x10 + drop_bit 4 page_start), of_nat (page_start AND 0xF)];
            d = snd (i2c_write d [] cmd)
        in case send_page_data (buffer s) (u8 (int maxbuff)) d ptr bytes_remaining of
             None \<Rightarrow> None
           | Some (Inl f) \<Rightarrow> Some (Inl f)
           | Some (Inr (d, ptr)) \<Rightarrow>
               flush_pages s pages bytes_per_page page_start page_end maxbuff d (Suc p)
      else Some (Inr d))"
  by pat_completeness auto
termination
  by (relation "measure (\<lambda>(s, pages, bpp, ps, pe, mb, d, p). pages - p)") auto

text \<open>
  \<open>display()\<close>, dirty-window revision. \<open>i2c_dev->maxBufferSize()\<close> is evaluated
  before the \<open>if (i2c_dev)\<close> test: with a null \<open>i2c_dev\<close> the call dereferences a
  null pointer. \<open>last_page\<close> is computed as the source computes it; the loop bound is
  \<open>pages\<close>. The function returns \<open>void\<close>: the result is the object after the call.
  \<open>None\<close> stands for a call that never returns.
\<close>

definition display :: "oled \<Rightarrow> (fault + oled) option" where
  "display s =
     (case i2c_dev s of
        None \<Rightarrow> Some (Inl NullPointer)
      | Some d \<Rightarrow>
          let count = u16 (WIDTH s * cdiv (HEIGHT s + 7) 8);
              pages = u8 (cdiv (HEIGHT s + 7) 8);
              bytes_per_page = u8 (WIDTH s);
              maxbuff = u16 (int (maxBufferSize d) - 1);
              first_page = u8 (cdiv (window_y1 s) 8);
              last_page = u8 (cdiv (window_y2 s + 7) 8);
              page_start = min bytes_per_page (u8 (window_x1 s));
              page_end = u8 (max 0 (window_x2 s));
              d = setSpeed d (i2c_preclk s)
          in case flush_pages s pages bytes_per_page page_start page_end maxbuff d first_page of
               None \<Rightarrow> None
             | Some (Inl f) \<Rightarrow> Some (Inl f)
             | Some (Inr d) \<Rightarrow>
                 Some (Inr (s\<lparr>i2c_dev := Some (setSpeed d (i2c_postclk s)),
                              window_x1 := 1024, window_y1 := 1024,
                              window_x2 := - 1, window_y2 := - 1\<rparr>)))"

text \<open>
  \<open>display()\<close>, full-buffer revision (Adafruit_SH110X.cpp; the MonoOLED-based
  revision has the same body). Its page loop: \<open>ptr\<close> starts at \<open>buffer\<close> and runs on
  from page to page, every page is selected at column 0 and sent whole, and the chunk
  bound is \<open>maxbuff\<close> itself (\<open>min\<close> of a \<open>uint8_t\<close> and a \<open>uint16_t\<close>).
\<close>

function send_pages ::
  "oled \<Rightarrow> nat \<Rightarrow> nat \<Rightarrow> nat \<Rightarrow> i2c_device \<Rightarrow> nat \<Rightarrow> nat \<Rightarrow> (fault + i2c_device) option" where
  "send_pages s pages bytes_per_page maxbuff d ptr p =
     (if p < pages then
        let bytes_remaining = bytes_per_page;
            cmd = [0x00, of_nat (SH110X_SETPAGEADDR + p), 0x10, 0x00];
            d = snd (i2c_write d [] cmd)
        in case send_page_data (buffer s) maxbuff d ptr bytes_remaining of
             None \<Rightarrow> None
           | Some (Inl f) \<Rightarrow> Some (Inl f)
           | Some (Inr (d, ptr)) \<Rightarrow> send_pages s pages bytes_per_page maxbuff d ptr (Suc p)
      else Some (Inr d))"
  by pat_completeness auto
termination
  by (relation "measure (\<lambda>(s, pages, bpp, mb, d, ptr, p). pages - p)") auto

text \<open>
  Here too \<open>i2c_dev->maxBufferSize()\<close> comes before \<open>if (i2c_dev)\<close>. The count of
  buffers per page, \<open>bytes_per_page / maxbuff\<close> and \<open>count % maxbuff\<close>, divides by
  \<open>maxbuff\<close>; its value only goes to the serial console, which is not modelled.
\<close>

definition display_full :: "oled \<Rightarrow> (fault + oled) option" where
  "display_full s =
     (case i2c_dev s of
        None \<Rightarrow> Some (Inl NullPointer)
      | Some d \<Rightarrow>
          let count = u16 (WIDTH s * cdiv (HEIGHT s + 7) 8);
              ptr = 0;
              pages = u8 (cdiv (HEIGHT s + 7) 8);
              bytes_per_page = u8 (WIDTH s);
              maxbuff = u16 (int (maxBufferSize d) - 1)
          in if maxbuff = 0 then Some (Inl DivideByZero)
             else
               let buffs = u8 (int (bytes_per_page div maxbuff));
                   buffs = (if count mod maxbuff \<noteq> 0 then u8 (int buffs + 1) else buffs)
               in case send_pages s pages bytes_per_page maxbuff d ptr 0 of
                    None \<Rightarrow> None
                  | Some (Inl f) \<Rightarrow> Some (Inl f)
                  | Some (Inr d) \<Rightarrow> Some (Inr (s\<lparr>i2c_dev := Some d\<rparr>)))"

section \<open>Properties stated about the driver\<close>

subsection \<open>Pixels\<close>

text \<open>
  A display object on which \<open>begin()\<close> has succeeded: positive dimensions that fit
  the \<open>uint8_t\<close> constructor parameters, \<open>_width\<close> and \<open>_height\<close> as
  \<open>Adafruit_GFX::setRotation\<close> leaves them for the current rotation (swapped for
  rotations 1 and 3), and a framebuffer of \<open>WIDTH * ((HEIGHT + 7) / 8)\<close> bytes.
\<close>

definition ready :: "oled \<Rightarrow> bool" where
  "ready s \<longleftrightarrow>
     0 < WIDTH s \<and> WIDTH s \<le> 255 \<and> 0 < HEIGHT s \<and> HEIGHT s \<le> 255 \<and>
     ((rotation s = 0 \<or> rotation s = 2) \<and> width s = WIDTH s \<and> height s = HEIGHT s \<or>
      (rotation s = 1 \<or> rotation s = 3) \<and> width s = HEIGHT s \<and> height s = WIDTH s) \<and>
     length (buffer s) = nat (WIDTH s * cdiv (HEIGHT s + 7) 8)"

definition in_bounds :: "oled \<Rightarrow> int \<Rightarrow> int \<Rightarrow> bool" where
  "in_bounds s x y \<longleftrightarrow> 0 \<le> x \<and> x < width s \<and> 0 \<le> y \<and> y < height s"

text \<open>
  The coordinate transform in the words of the specification, on the coordinates the
  caller passed: rotation 0 is the identity; rotation 1 gives \<open>x' = W - y - 1\<close>,
  \<open>y' = x\<close>; rotation 2 gives \<open>x' = W - x - 1\<close>, \<open>y' = H - y - 1\<close>; rotation 3 gives
  \<open>x' = y\<close>, \<open>y' = H - x - 1\<close>. The pixel is bit \<open>y' mod 8\<close> of byte
  \<open>x' + (y' / 8) * W\<close>.
\<close>

definition spec_physical :: "nat \<Rightarrow> int \<Rightarrow> int \<Rightarrow> int \<times> int \<Rightarrow> int \<times> int" where
  "spec_physical r W H xy =
     (let x = fst xy; y = snd xy in
      if r = 0 then (x, y)
      else if r = 1 then (W - y - 1, x)
      else if r = 2 then (W - x - 1, H - y - 1)
      else (y, H - x - 1))"

definition phys_index :: "oled \<Rightarrow> int \<times> int \<Rightarrow> nat" where
  "phys_index s p = nat (fst p + (snd p div 8) * WIDTH s)"

definition phys_bit :: "int \<times> int \<Rightarrow> nat" where
  "phys_bit p = nat (snd p mod 8)"

subsection \<open>The dirty window\<close>

text \<open>
  The window as a tuple; the empty sentinel that \<open>display()\<close> leaves behind; a window
  inside the physical rectangle; a window that covers all of it.
\<close>

definition window :: "oled \<Rightarrow> int \<times> int \<times> int \<times> int" where
  "window s = (window_x1 s, window_y1 s, window_x2 s, window_y2 s)"

definition dirty_empty :: "oled \<Rightarrow> bool" where
  "dirty_empty s \<longleftrightarrow> window s = (1024, 1024, - 1, - 1)"

definition dirty_valid :: "oled \<Rightarrow> bool" where
  "dirty_valid s \<longleftrightarrow>
     0 \<le> window_x1 s \<and> window_x1 s \<le> window_x2 s \<and> window_x2 s < WIDTH s \<and>
     0 \<le> window_y1 s \<and> window_y1 s \<le> window_y2 s \<and> window_y2 s < HEIGHT s"


subsection \<open>Bus traffic\<close>

text \<open>
  A sequence of writes, each a pair of prefix and payload, performed one after the other
  with every result discarded; the same pair read off a recorded transfer; the trace of
  the object's transport.
\<close>

fun i2c_writes :: "i2c_device \<Rightarrow> (byte list \<times> byte list) list \<Rightarrow> i2c_device" where
  "i2c_writes d [] = d"
| "i2c_writes d (w # ws) = i2c_writes (snd (i2c_write d (fst w) (snd w))) ws"

definition xfer_bytes :: "xfer \<Rightarrow> byte list \<times> byte list" where
  "xfer_bytes t = (xprefix t, xdata t)"

definition bus_trace :: "oled \<Rightarrow> xfer list" where
  "bus_trace s = (case i2c_dev s of None \<Rightarrow> [] | Some d \<Rightarrow> sent d)"

text \<open>
  Chunking in the words of the specification: each chunk's size is
  \<open>min(remaining_bytes, cap)\<close>; advance by the chunk and repeat until the range is
  exhausted.
\<close>

function spec_chunks :: "nat \<Rightarrow> 'a list \<Rightarrow> 'a list list" where
  "spec_chunks cap xs =
     (if xs = [] \<or> cap = 0 then []
      else take (min (length xs) cap) xs # spec_chunks cap (drop (min (length xs) cap) xs))"
  by pat_completeness auto
termination
  by (relation "measure (\<lambda>(cap, xs). length xs)") auto

text \<open>
  The chunk bound the dirty-window \<open>display()\<close> uses, \<open>(uint8_t)maxbuff\<close>; the
  page-select command for page \<open>p\<close> and start column \<open>col\<close> (page address, then the
  column's high and low nibble); the bytes of the dirty columns of page \<open>p\<close>.
\<close>

definition chunk_cap :: "i2c_device \<Rightarrow> nat" where
  "chunk_cap d = u8 (int (u16 (int (maxBufferSize d) - 1)))"

definition page_select_cmd :: "nat \<Rightarrow> nat \<Rightarrow> byte list" where
  "page_select_cmd p col =
     [0x00, of_nat (0xB0 + p), of_nat (0x10 + col div 16), of_nat (col mod 16)]"


text \<open>
  The writes of one page, and of a whole refresh: for the dirty-window revision every
  page from the one holding \<open>window_y1\<close> up to the last page of the display, for the
  full-buffer revision every page, whole.
\<close>

definition page_ops ::
  "byte list \<Rightarrow> nat \<Rightarrow> nat \<Rightarrow> nat \<Rightarrow> nat \<Rightarrow> nat \<Rightarrow> (byte list \<times> byte list) list" where
  "page_ops buf bpp cap col w p =
     ([], page_select_cmd p col) #
     map (Pair [0x40]) (spec_chunks cap (take w (drop (p * bpp + col) buf)))"

definition flush_ops :: "oled \<Rightarrow> i2c_device \<Rightarrow> (byte list \<times> byte list) list" where
  "flush_ops s d =
     concat (map (page_ops (buffer s) (nat (WIDTH s)) (chunk_cap d) (nat (window_x1 s))
                    (nat (window_x2 s - window_x1 s + 1)))
               [nat (window_y1 s div 8) ..< nat ((HEIGHT s + 7) div 8)])"

definition full_page_ops ::
  "byte list \<Rightarrow> nat \<Rightarrow> nat \<Rightarrow> nat \<Rightarrow> (byte list \<times> byte list) list" where
  "full_page_ops buf bpp cap p =
     ([], page_select_cmd p 0) #
     map (Pair [0x40]) (spec_chunks cap (take bpp (drop (p * bpp) buf)))"

text \<open>The object a returning dirty-window \<open>display()\<close> leaves, given the device.\<close>

definition after_display :: "oled \<Rightarrow> i2c_device \<Rightarrow> oled" where
  "after_display s d = s\<lparr>i2c_dev := Some (setSpeed d (i2c_postclk s)),
     window_x1 := 1024, window_y1 := 1024, window_x2 := - 1, window_y2 := - 1\<rparr>"

text \<open>
  What is observed of a call of \<open>display()\<close> that returns: the prefix and payload of
  every transfer on the wire; the recorded transfers together with the dirty window; the
  payload sizes of the data transfers (those behind the \<open>0x40\<close> discriminator).
\<close>

definition flushed :: "(fault + oled) option \<Rightarrow> (byte list \<times> byte list) list option" where
  "flushed r = (case r of Some (Inr s) \<Rightarrow> Some (map xfer_bytes (bus_trace s)) | _ \<Rightarrow> None)"

definition outcome ::
  "(fault + oled) option \<Rightarrow> (xfer list \<times> int \<times> int \<times> int \<times> int) option" where
  "outcome r = (case r of Some (Inr s) \<Rightarrow> Some (bus_trace s, window s) | _ \<Rightarrow> None)"


subsection \<open>Example objects\<close>

text \<open>
  An 8 by 16 panel in rotation 1 without a transport, dark and fully lit; a 128 by 64
  display on a 32-byte transport whose dirty window is the single pixel (10, 20), the
  same display with an empty window and with a window covering the screen; a 4 by 16
  strip on a 3-byte transport that answers the second write with a NACK; a 128 by 8 bar
  on a 300-byte transport.
\<close>

definition panel :: oled where
  "panel = \<lparr>WIDTH = 8, HEIGHT = 16, width = 16, height = 8, rotation = 1,
     buffer = replicate 16 0, i2c_dev = None,
     window_x1 = 1024, window_y1 = 1024, window_x2 = - 1, window_y2 = - 1,
     i2c_preclk = 400000, i2c_postclk = 100000\<rparr>"

definition lit_panel :: oled where
  "lit_panel = panel\<lparr>buffer := replicate 16 255\<rparr>"

definition wire :: i2c_device where
  "wire = \<lparr>maxBufferSize = 32, acks = [], sent = [], clock = 100000\<rparr>"

definition oled128 :: oled where
  "oled128 = \<lparr>WIDTH = 128, HEIGHT = 64, width = 128, height = 64, rotation = 0,
     buffer = replicate 1024 0, i2c_dev = Some wire,
     window_x1 = 10, window_y1 = 20, window_x2 = 10, window_y2 = 20,
     i2c_preclk = 400000, i2c_postclk = 100000\<rparr>"

definition idle128 :: oled where
  "idle128 = oled128\<lparr>window_x1 := 1024, window_y1 := 1024, window_x2 := - 1, window_y2 := - 1\<rparr>"


definition nacking_wire :: i2c_device where
  "nacking_wire = \<lparr>maxBufferSize = 3, acks = [True, False], sent = [], clock = 100000\<rparr>"

definition strip :: oled where
  "strip = \<lparr>WIDTH = 4, HEIGHT = 16, width = 4, height = 16, rotation = 0,
     buffer = [1, 2, 3, 4, 5, 6, 7, 8], i2c_dev = Some nacking_wire,
     window_x1 = 0, window_y1 = 0, window_x2 = 3, window_y2 = 15,
     i2c_preclk = 400000, i2c_postclk = 100000\<rparr>"



declare spec_chunks.simps [simp del]
declare flush_pages.simps [simp del]
declare send_pages.simps [simp del]

section \<open>Pixel access: proofs\<close>

lemma and7: "(y::int) AND 7 = y mod 8"
proof -
  have "y AND mask 3 = y mod 2 ^ 3"
    by (simp only: take_bit_eq_mod flip: take_bit_eq_mask)
  then show ?thesis by (simp add: mask_eq_exp_minus_1)
qed

lemma sh110x_swap_eq: "sh110x_swap (a, b) = (b, a)"
  by (auto simp add: sh110x_swap_def Let_def bit_eq_iff bit_simps) 

lemma cdiv_nonneg: "0 \<le> a \<Longrightarrow> cdiv a b = a div b"
  by (simp add: cdiv_def)

lemma rotate_xy_spec:
  "ready s \<Longrightarrow> rotate_xy s (x, y) = spec_physical (rotation s) (WIDTH s) (HEIGHT s) (x, y)"
  by (auto simp: ready_def rotate_xy_def spec_physical_def sh110x_swap_eq)

lemma physical_in_range:
  assumes "ready s" "0 \<le> x" "x < width s" "0 \<le> y" "y < height s"
    and "rotate_xy s (x, y) = (x', y')"
  shows "0 \<le> x' \<and> x' < WIDTH s \<and> 0 \<le> y' \<and> y' < HEIGHT s"
  using assms by (auto simp: ready_def rotate_xy_def sh110x_swap_eq)

lemma index_in_range:
  fixes W H :: int
  assumes "0 \<le> x'" "x' < W" "0 \<le> y'" "y' < H"
  shows "0 \<le> x' + (y' div 8) * W \<and> x' + (y' div 8) * W < W * ((H + 7) div 8)"
proof -
  have p: "0 \<le> y' div 8" using assms by simp
  have "y' div 8 + 1 \<le> (H + 7) div 8" using assms by linarith
  then have "(y' div 8 + 1) * W \<le> ((H + 7) div 8) * W"
    using assms by (intro mult_right_mono) auto
  then have "x' + (y' div 8) * W < ((H + 7) div 8) * W"
    using assms by (simp add: algebra_simps)
  moreover have "0 \<le> (y' div 8) * W" using p assms by simp
  ultimately show ?thesis using assms by (simp add: mult.commute)
qed

lemma bit_mask_eq: "0 \<le> y \<Longrightarrow> bit_mask (x, y) = push_bit (nat (y mod 8)) 1"
  by (simp add: bit_mask_def and7)

lemma test_mask: "(b AND 2 ^ k \<noteq> 0) = bit (b::byte) k"
  using bit_iff_and_push_bit_not_eq_0 [of b k] by simp


lemma located:
  assumes "ready s" "in_bounds s x y"
    and "p = spec_physical (rotation s) (WIDTH s) (HEIGHT s) (x, y)"
  shows "rotate_xy s (x, y) = p"
    and "0 \<le> fst p \<and> fst p < WIDTH s \<and> 0 \<le> snd p \<and> snd p < HEIGHT s"
    and "byte_index s p = int (phys_index s p)"
    and "phys_index s p < length (buffer s)"
    and "bit_mask p = push_bit (phys_bit p) 1"
proof -
  show r: "rotate_xy s (x, y) = p" using assms by (simp add: rotate_xy_spec)
  have "rotate_xy s (x, y) = (fst p, snd p)" using r by simp
  from physical_in_range [OF assms(1) _ _ _ _ this] assms(2)
  show b: "0 \<le> fst p \<and> fst p < WIDTH s \<and> 0 \<le> snd p \<and> snd p < HEIGHT s"
    by (simp add: in_bounds_def)
  from b index_in_range [of "fst p" "WIDTH s" "snd p" "HEIGHT s"]
  have i: "0 \<le> fst p + (snd p div 8) * WIDTH s \<and>
      fst p + (snd p div 8) * WIDTH s < WIDTH s * ((HEIGHT s + 7) div 8)" by simp
  show "byte_index s p = int (phys_index s p)"
    using b i by (simp add: byte_index_def phys_index_def cdiv_nonneg)
  have "0 \<le> HEIGHT s + 7" using assms(1) by (simp add: ready_def)
  then have "length (buffer s) = nat (WIDTH s * ((HEIGHT s + 7) div 8))"
    using assms(1) by (simp add: ready_def cdiv_nonneg)
  then show "phys_index s p < length (buffer s)"
    using i by (simp add: phys_index_def)
  show "bit_mask p = push_bit (phys_bit p) 1"
    using b bit_mask_eq [of "snd p" "fst p"] by (simp add: phys_bit_def)
qed

lemma getPixel_physical:
  assumes "ready s" "in_bounds s x y"
    and "p = spec_physical (rotation s) (WIDTH s) (HEIGHT s) (x, y)"
  shows "getPixel s x y = Inr (bit (buffer s ! phys_index s p) (phys_bit p))"
  using located [OF assms] assms(2)
  by (simp add: getPixel_def in_bounds_def Let_def test_mask)

lemma drawPixel_physical:
  assumes "ready s" "in_bounds s x y"
    and "p = spec_physical (rotation s) (WIDTH s) (HEIGHT s) (x, y)"
  shows "drawPixel s x y SH110X_WHITE =
           Inr (s\<lparr>buffer := (buffer s)[phys_index s p :=
                  set_bit (phys_bit p) (buffer s ! phys_index s p)]\<rparr>)"
    and "drawPixel s x y SH110X_BLACK =
           Inr (s\<lparr>buffer := (buffer s)[phys_index s p :=
                  unset_bit (phys_bit p) (buffer s ! phys_index s p)]\<rparr>)"
    and "drawPixel s x y SH110X_INVERSE =
           Inr (s\<lparr>buffer := (buffer s)[phys_index s p :=
                  flip_bit (phys_bit p) (buffer s ! phys_index s p)]\<rparr>)"
  using located [OF assms] assms(2)
  by (simp_all add: drawPixel_def in_bounds_def Let_def modify_byte_def
      SH110X_WHITE_def SH110X_BLACK_def SH110X_INVERSE_def
      set_bit_eq_or unset_bit_eq_and_not flip_bit_eq_xor)


lemma ready_panel: "ready panel"
  by (simp add: ready_def panel_def cdiv_def)

lemma set_then_test: "k < 8 \<Longrightarrow> bit (set_bit k (b::byte)) k"
  by (simp add: bit_simps)

lemma phys_index_buffer_update: "phys_index (s\<lparr>buffer := b\<rparr>) p = phys_index s p"
  by (simp add: phys_index_def)

lemma unset_then_test: "\<not> bit (unset_bit k (b::byte)) k"
  by (simp add: bit_simps)

lemma flip_flip: "flip_bit k (flip_bit k (b::byte)) = b"
  by (auto simp add: bit_eq_iff bit_simps)

lemma phys_bit_less: "phys_bit p < 8"
  by (simp add: phys_bit_def)

text \<open>
  C4. For every in-bounds logical coordinate and each of the four rotations
  (\<open>ready\<close> fixes the logical dimensions for the rotation in force): after
  \<open>drawPixel(x, y, SH110X_WHITE)\<close>, \<open>getPixel(x, y)\<close> is true; after a further
  \<open>drawPixel(x, y, SH110X_BLACK)\<close> it is false; and two \<open>drawPixel(x, y,
  SH110X_INVERSE)\<close> in a row give back the object they started from, hence the same
  \<open>getPixel(x, y)\<close>. No call faults.
\<close>

theorem drawPixel_getPixel_roundtrip:
  assumes "ready s" and "0 \<le> x" "x < width s" "0 \<le> y" "y < height s"
  shows "\<exists>s1 s2 s3 s4.
           drawPixel s x y SH110X_WHITE = Inr s1 \<and> getPixel s1 x y = Inr True \<and>
           drawPixel s1 x y SH110X_BLACK = Inr s2 \<and> getPixel s2 x y = Inr False \<and>
           drawPixel s x y SH110X_INVERSE = Inr s3 \<and>
           drawPixel s3 x y SH110X_INVERSE = Inr s4 \<and>
           getPixel s4 x y = getPixel s x y \<and> s4 = s"
proof -
  define p where "p = spec_physical (rotation s) (WIDTH s) (HEIGHT s) (x, y)"
  define i where "i = phys_index s p"
  define k where "k = phys_bit p"
  define s1 where "s1 = s\<lparr>buffer := (buffer s)[i := set_bit k (buffer s ! i)]\<rparr>"
  define s2 where "s2 = s1\<lparr>buffer := (buffer s1)[i := unset_bit k (buffer s1 ! i)]\<rparr>"
  define s3 where "s3 = s\<lparr>buffer := (buffer s)[i := flip_bit k (buffer s ! i)]\<rparr>"
  have b: "in_bounds s x y" using assms by (simp add: in_bounds_def)
  have i: "i < length (buffer s)"
    using located(4) [OF assms(1) b p_def] by (simp add: i_def)
  have k: "k < 8" by (simp add: k_def phys_bit_less)
  have r1: "ready s1" and b1: "in_bounds s1 x y"
    using assms(1) b by (simp_all add: s1_def ready_def in_bounds_def)
  have r2: "ready s2" and b2: "in_bounds s2 x y"
    using r1 b1 by (simp_all add: s2_def ready_def in_bounds_def)
  have r3: "ready s3" and b3: "in_bounds s3 x y"
    using assms(1) b by (simp_all add: s3_def ready_def in_bounds_def)
  have p1: "p = spec_physical (rotation s1) (WIDTH s1) (HEIGHT s1) (x, y)"
    by (simp add: p_def s1_def)
  have p2: "p = spec_physical (rotation s2) (WIDTH s2) (HEIGHT s2) (x, y)"
    by (simp add: p_def s2_def s1_def)
  have p3: "p = spec_physical (rotation s3) (WIDTH s3) (HEIGHT s3) (x, y)"
    by (simp add: p_def s3_def)
  have i1: "phys_index s1 p = i" by (simp add: phys_index_def i_def s1_def)
  have i2: "phys_index s2 p = i" by (simp add: phys_index_def i_def s2_def s1_def)
  have i3: "phys_index s3 p = i" by (simp add: phys_index_def i_def s3_def)
  have d1: "drawPixel s x y SH110X_WHITE = Inr s1"
    using drawPixel_physical(1) [OF assms(1) b p_def] by (simp add: s1_def i_def k_def)
  have g1: "getPixel s1 x y = Inr True"
    using getPixel_physical [OF r1 b1 p1] i k
    by (simp add: s1_def phys_index_buffer_update set_then_test flip: k_def i_def)
  have d2: "drawPixel s1 x y SH110X_BLACK = Inr s2"
    using drawPixel_physical(2) [OF r1 b1 p1] by (simp add: i1 s2_def flip: k_def)
  have g2: "getPixel s2 x y = Inr False"
    using getPixel_physical [OF r2 b2 p2] i
    by (simp add: s2_def s1_def phys_index_buffer_update unset_then_test flip: k_def i_def)
  have d3: "drawPixel s x y SH110X_INVERSE = Inr s3"
    using drawPixel_physical(3) [OF assms(1) b p_def] by (simp add: s3_def i_def k_def)
  have "drawPixel s3 x y SH110X_INVERSE =
      Inr (s3\<lparr>buffer := (buffer s3)[i := flip_bit k (buffer s3 ! i)]\<rparr>)"
    using drawPixel_physical(3) [OF r3 b3 p3] by (simp add: i3 flip: k_def)
  moreover have "s3\<lparr>buffer := (buffer s3)[i := flip_bit k (buffer s3 ! i)]\<rparr> = s"
    using i by (simp add: s3_def flip_flip)
  ultimately have d4: "drawPixel s3 x y SH110X_INVERSE = Inr s" by simp
  from d1 g1 d2 g2 d3 d4 show ?thesis by blast
qed

theorem drawPixel_getPixel_roundtrip_witness:
  "ready panel \<and> (0::int) \<le> 3 \<and> 3 < width panel \<and> (0::int) \<le> 5 \<and> 5 < height panel \<and>
   (\<exists>s1 s2 s3 s4.
      drawPixel panel 3 5 SH110X_WHITE = Inr s1 \<and> getPixel s1 3 5 = Inr True \<and>
      drawPixel s1 3 5 SH110X_BLACK = Inr s2 \<and> getPixel s2 3 5 = Inr False \<and>
      drawPixel panel 3 5 SH110X_INVERSE = Inr s3 \<and>
      drawPixel s3 3 5 SH110X_INVERSE = Inr s4 \<and>
      getPixel s4 3 5 = getPixel panel 3 5 \<and> s4 = panel)"
proof -
  have b: "(0::int) \<le> 3" "3 < width panel" "(0::int) \<le> 5" "5 < height panel"
    by (simp_all add: panel_def)
  from drawPixel_getPixel_roundtrip [OF ready_panel b] ready_panel b
  show ?thesis by (intro conjI)
qed


text \<open>
  C5. For an in-bounds logical coordinate, the \<open>switch\<close> on the rotation maps
  \<open>(x, y)\<close> to the physical coordinate \<open>(x', y')\<close> of the specification
  (\<open>spec_physical\<close>: identity; \<open>(W - y - 1, x)\<close>; \<open>(W - x - 1, H - y - 1)\<close>;
  \<open>(y, H - x - 1)\<close>), which lies inside the physical \<open>W \<times> H\<close> rectangle, and
  \<open>getPixel\<close> reads, and \<open>drawPixel\<close> sets, clears or flips, bit \<open>y' mod 8\<close> of
  byte \<open>x' + (y' / 8) * W\<close> of the buffer and nothing else.
\<close>

theorem coordinate_transform:
  assumes "ready s" and "0 \<le> x" "x < width s" "0 \<le> y" "y < height s"
    and "spec_physical (rotation s) (WIDTH s) (HEIGHT s) (x, y) = (x', y')"
    and "i = nat (x' + (y' div 8) * WIDTH s)" and "k = nat (y' mod 8)"
  shows "rotate_xy s (x, y) = (x', y') \<and>
         0 \<le> x' \<and> x' < WIDTH s \<and> 0 \<le> y' \<and> y' < HEIGHT s \<and>
         i < length (buffer s) \<and>
         getPixel s x y = Inr (bit (buffer s ! i) k) \<and>
         drawPixel s x y SH110X_WHITE =
           Inr (s\<lparr>buffer := (buffer s)[i := set_bit k (buffer s ! i)]\<rparr>) \<and>
         drawPixel s x y SH110X_BLACK =
           Inr (s\<lparr>buffer := (buffer s)[i := unset_bit k (buffer s ! i)]\<rparr>) \<and>
         drawPixel s x y SH110X_INVERSE =
           Inr (s\<lparr>buffer := (buffer s)[i := flip_bit k (buffer s ! i)]\<rparr>)"
proof -
  have b: "in_bounds s x y" using assms(2-5) by (simp add: in_bounds_def)
  have p: "(x', y') = spec_physical (rotation s) (WIDTH s) (HEIGHT s) (x, y)"
    using assms(6) by simp
  have i: "phys_index s (x', y') = i" by (simp add: phys_index_def assms(7))
  have k: "phys_bit (x', y') = k" by (simp add: phys_bit_def assms(8))
  note l = located [OF assms(1) b p]
  note g = getPixel_physical [OF assms(1) b p]
  note d = drawPixel_physical [OF assms(1) b p]
  show ?thesis
    using l(1) l(2) l(4) g d by (simp add: i k)
qed

theorem coordinate_transform_witness:
  "ready panel \<and> (0::int) \<le> 3 \<and> 3 < width panel \<and> (0::int) \<le> 5 \<and> 5 < height panel \<and>
   spec_physical (rotation panel) (WIDTH panel) (HEIGHT panel) (3, 5) = (2, 3) \<and>
   (2::nat) = nat (2 + (3 div 8) * WIDTH panel) \<and> (3::nat) = nat (3 mod 8) \<and>
   rotate_xy panel (3, 5) = (2, 3) \<and>
   (2::nat) < length (buffer panel) \<and>
   getPixel panel 3 5 = Inr (bit (buffer panel ! 2) 3) \<and>
   drawPixel panel 3 5 SH110X_WHITE =
     Inr (panel\<lparr>buffer := (buffer panel)[2 := set_bit 3 (buffer panel ! 2)]\<rparr>)"
proof -
  have b: "(0::int) \<le> 3" "3 < width panel" "(0::int) \<le> 5" "5 < height panel"
    by (simp_all add: panel_def)
  have p: "spec_physical (rotation panel) (WIDTH panel) (HEIGHT panel) (3, 5) = (2, 3)"
    by (simp add: spec_physical_def panel_def)
  have i: "(2::nat) = nat (2 + (3 div 8) * WIDTH panel)" by (simp add: panel_def)
  have k: "(3::nat) = nat (3 mod 8)" by simp
  from coordinate_transform [OF ready_panel b p i k] ready_panel b p i k
  show ?thesis by blast
qed

text \<open>
  C6. For a coordinate outside \<open>[0, width) \<times> [0, height)\<close>, negative values
  included, \<open>drawPixel\<close> returns the object unchanged (framebuffer, dirty window and
  everything else) whatever the colour, and \<open>getPixel\<close> returns false; neither
  faults.
\<close>

theorem out_of_bounds_ignored:
  assumes "x < 0 \<or> width s \<le> x \<or> y < 0 \<or> height s \<le> y"
  shows "drawPixel s x y color = Inr s \<and> getPixel s x y = Inr False"
  using assms by (auto simp: drawPixel_def getPixel_def)

theorem out_of_bounds_ignored_witness:
  "((- 1::int) < 0 \<or> width panel \<le> - 1 \<or> (3::int) < 0 \<or> height panel \<le> 3) \<and>
   drawPixel panel (- 1) 3 SH110X_WHITE = Inr panel \<and> getPixel panel (- 1) 3 = Inr False \<and>
   drawPixel lit_panel 16 0 SH110X_BLACK = Inr lit_panel \<and>
   getPixel lit_panel 16 0 = Inr False"
proof -
  have a: "(- 1::int) < 0 \<or> width panel \<le> - 1 \<or> (3::int) < 0 \<or> height panel \<le> 3"
    by simp
  have b: "(16::int) < 0 \<or> width lit_panel \<le> 16 \<or> (0::int) < 0 \<or> height lit_panel \<le> 0"
    by (simp add: lit_panel_def panel_def)
  from out_of_bounds_ignored [OF a, of SH110X_WHITE]
    out_of_bounds_ignored [OF b, of SH110X_BLACK] a
  show ?thesis by blast
qed

text \<open>
  C10. For a colour other than \<open>SH110X_BLACK\<close>, \<open>SH110X_WHITE\<close> and
  \<open>SH110X_INVERSE\<close>, \<open>drawPixel\<close> returns the object unchanged, at every
  coordinate (in bounds or not): no byte of the framebuffer changes.
\<close>

theorem unknown_colour_ignored:
  assumes "color \<noteq> SH110X_BLACK" "color \<noteq> SH110X_WHITE" "color \<noteq> SH110X_INVERSE"
  shows "drawPixel s x y color = Inr s"
  using assms by (simp add: drawPixel_def)

theorem unknown_colour_ignored_witness:
  "(7::nat) \<noteq> SH110X_BLACK \<and> 7 \<noteq> SH110X_WHITE \<and> 7 \<noteq> SH110X_INVERSE \<and>
   (0::int) \<le> 3 \<and> 3 < width lit_panel \<and> (0::int) \<le> 5 \<and> 5 < height lit_panel \<and>
   drawPixel lit_panel 3 5 7 = Inr lit_panel"
proof -
  have c: "(7::nat) \<noteq> SH110X_BLACK" "7 \<noteq> SH110X_WHITE" "7 \<noteq> SH110X_INVERSE"
    by (simp_all add: SH110X_BLACK_def SH110X_WHITE_def SH110X_INVERSE_def)
  have b: "(0::int) \<le> 3" "3 < width lit_panel" "(0::int) \<le> 5" "5 < height lit_panel"
    by (simp_all add: lit_panel_def panel_def)
  from unknown_colour_ignored [OF c, of lit_panel 3 5] c b
  show ?thesis by (intro conjI)
qed





section \<open>Refresh: proofs\<close>

subsection \<open>The loops\<close>

lemma i2c_writes_append: "i2c_writes d (ws @ vs) = i2c_writes (i2c_writes d ws) vs"
  by (induction ws arbitrary: d) auto

text \<open>
  With a positive chunk bound and the range inside the buffer, the data loop returns,
  having sent the range in the chunks of \<open>spec_chunks\<close>.
\<close>

lemma send_page_data_chunks:
  assumes "0 < cap" "ptr + n \<le> length buf"
  shows "send_page_data buf cap d ptr n =
           Some (Inr (i2c_writes d (map (Pair [0x40]) (spec_chunks cap (take n (drop ptr buf)))),
                      ptr + n))"
  using assms
proof (induction n arbitrary: d ptr rule: less_induct)
  case (less n)
  show ?case
  proof (cases "n = 0")
    case True
    then show ?thesis
      by (simp add: send_page_data.simps spec_chunks.simps)
  next
    case False
    define tw where "tw = min n cap"
    have tw: "0 < tw" "tw \<le> n" using False less.prems by (simp_all add: tw_def)
    have inb: "\<not> length buf < ptr + tw" using tw less.prems by simp
    have len: "length (take n (drop ptr buf)) = n" using less.prems by simp
    have ne: "take n (drop ptr buf) \<noteq> []" using len False by auto
    have hd: "take (min (length (take n (drop ptr buf))) cap) (take n (drop ptr buf))
                = take tw (drop ptr buf)"
      using tw less.prems by (simp add: tw_def)
    have tl: "drop (min (length (take n (drop ptr buf))) cap) (take n (drop ptr buf))
                = take (n - tw) (drop (ptr + tw) buf)"
      using tw less.prems by (simp add: tw_def drop_take add.commute)
    have ih: "send_page_data buf cap d' (ptr + tw) (n - tw) =
           Some (Inr (i2c_writes d' (map (Pair [0x40])
                        (spec_chunks cap (take (n - tw) (drop (ptr + tw) buf)))),
                      ptr + tw + (n - tw)))" for d'
      using less.IH [of "n - tw" "ptr + tw" d'] tw less.prems by simp
    have sc: "spec_chunks cap (take n (drop ptr buf)) =
                take tw (drop ptr buf) # spec_chunks cap (take (n - tw) (drop (ptr + tw) buf))"
      using ne less.prems(1) by (subst spec_chunks.simps) (simp only: hd tl, simp)
    show ?thesis
      using False inb tw
      by (subst send_page_data.simps) (simp add: Let_def ih sc flip: tw_def)
  qed
qed

lemma and15: "(n::nat) AND 15 = n mod 16"
proof -
  have "n AND mask 4 = n mod 2 ^ 4"
    by (simp only: take_bit_eq_mod flip: take_bit_eq_mask)
  then show ?thesis by (simp add: mask_eq_exp_minus_1)
qed

lemma flush_pages_done:
  "\<not> p < pages \<Longrightarrow> flush_pages s pages bpp ps pe maxbuff d p = Some (Inr d)"
  by (subst flush_pages.simps) simp

lemma flush_pages_ops:
  assumes cap: "0 < u8 (int maxbuff)"
    and w: "w = u8 (int (u8 (int bpp - int ps)) - ((WIDTH s - 1) - int pe))"
    and fit: "ps + w \<le> bpp" "pages * bpp \<le> length (buffer s)"
  shows "flush_pages s pages bpp ps pe maxbuff d p =
           Some (Inr (i2c_writes d
             (concat (map (page_ops (buffer s) bpp (u8 (int maxbuff)) ps w) [p..<pages]))))"
proof (induction "pages - p" arbitrary: p d)
  case 0
  then show ?case by (simp add: flush_pages_done)
next
  case (Suc k)
  then have lt: "p < pages" and k: "k = pages - Suc p" by simp_all
  have "Suc p * bpp \<le> pages * bpp" using lt by (intro mult_le_mono1) simp
  then have inb: "p * bpp + ps + w \<le> length (buffer s)"
    using fit by simp
  have cmd: "[0x00, of_nat (SH110X_SETPAGEADDR + p), of_nat (0x10 + drop_bit 4 ps),
              of_nat (ps AND 0xF)] = page_select_cmd p ps"
    by (simp add: page_select_cmd_def SH110X_SETPAGEADDR_def and15 drop_bit_eq_div)
  have up: "[p..<pages] = p # [Suc p..<pages]" using lt by (simp add: upt_conv_Cons)
  show ?case
    apply (subst flush_pages.simps)
    apply (simp only: lt if_True Let_def cmd flip: w)
    apply (simp only: send_page_data_chunks [OF cap inb] Suc.hyps(1) [OF k])
    apply (simp add: up page_ops_def i2c_writes_append)
    done
qed

subsection \<open>The dirty-window revision\<close>

lemma sent_i2c_writes:
  "map xfer_bytes (sent (i2c_writes d ws)) = map xfer_bytes (sent d) @ ws"
  by (induction ws arbitrary: d) (auto simp: i2c_write_def xfer_bytes_def Let_def)

lemma display_Some:
  "i2c_dev s = Some d \<Longrightarrow>
   display s =
     (case flush_pages s (u8 (cdiv (HEIGHT s + 7) 8)) (u8 (WIDTH s))
             (min (u8 (WIDTH s)) (u8 (window_x1 s))) (u8 (max 0 (window_x2 s)))
             (u16 (int (maxBufferSize d) - 1)) (setSpeed d (i2c_preclk s))
             (u8 (cdiv (window_y1 s) 8)) of
        None \<Rightarrow> None
      | Some (Inl f) \<Rightarrow> Some (Inl f)
      | Some (Inr d') \<Rightarrow> Some (Inr (after_display s d')))"
  by (simp add: display_def Let_def after_display_def split: option.split sum.split)

text \<open>
  On a begun display with a transport, a positive chunk bound and a dirty window inside
  the screen, \<open>display()\<close> returns, and what it did to the transport is \<open>flush_ops\<close>.
\<close>

lemma display_valid:
  assumes r: "ready s" and d: "i2c_dev s = Some d" and cap: "0 < chunk_cap d"
    and v: "dirty_valid s"
  shows "display s =
           Some (Inr (after_display s (i2c_writes (setSpeed d (i2c_preclk s)) (flush_ops s d))))"
proof -
  have W: "0 < WIDTH s" "WIDTH s \<le> 255" and H: "0 < HEIGHT s" "HEIGHT s \<le> 255"
    and len: "length (buffer s) = nat (WIDTH s * cdiv (HEIGHT s + 7) 8)"
    using r by (simp_all add: ready_def)
  have x: "0 \<le> window_x1 s" "window_x1 s \<le> window_x2 s" "window_x2 s < WIDTH s"
    and y: "0 \<le> window_y1 s" "window_y1 s < HEIGHT s"
    using v by (simp_all add: dirty_valid_def)
  have bpp: "u8 (WIDTH s) = nat (WIDTH s)" using W by (simp add: u8_def)
  have pages: "u8 (cdiv (HEIGHT s + 7) 8) = nat ((HEIGHT s + 7) div 8)"
    using H by (simp add: u8_def cdiv_def)
  have fp: "u8 (cdiv (window_y1 s) 8) = nat (window_y1 s div 8)"
    using y H by (simp add: u8_def cdiv_def)
  have ps: "min (nat (WIDTH s)) (u8 (window_x1 s)) = nat (window_x1 s)"
    using x W by (simp add: u8_def)
  have pe: "u8 (max 0 (window_x2 s)) = nat (window_x2 s)"
    using x W by (simp add: u8_def)
  define w where "w = nat (window_x2 s - window_x1 s + 1)"
  have w: "w = u8 (int (u8 (int (nat (WIDTH s)) - int (nat (window_x1 s)))) -
                 ((WIDTH s - 1) - int (nat (window_x2 s))))"
    using x W by (simp add: u8_def w_def)
  have fit1: "nat (window_x1 s) + w \<le> nat (WIDTH s)" using x by (simp add: w_def)
  have "0 \<le> (HEIGHT s + 7) div 8" using H by simp
  then have fit2: "nat ((HEIGHT s + 7) div 8) * nat (WIDTH s) \<le> length (buffer s)"
    using W H by (simp add: len cdiv_def nat_mult_distrib mult.commute)
  have cap': "0 < u8 (int (u16 (int (maxBufferSize (setSpeed d (i2c_preclk s))) - 1)))"
    using cap by (simp add: chunk_cap_def setSpeed_def)
  have cap2: "0 < u8 (int (u16 (int (maxBufferSize d) - 1)))"
    using cap by (simp add: chunk_cap_def)
  show ?thesis
    unfolding display_Some [OF d] bpp pages fp ps pe
    by (simp add: flush_pages_ops [OF cap2 w fit1 fit2] flush_ops_def chunk_cap_def
        flip: w_def)
qed

lemma display_empty:
  assumes d: "i2c_dev s = Some d" and H: "0 \<le> HEIGHT s" "HEIGHT s \<le> 1024"
    and e: "dirty_empty s"
  shows "display s = Some (Inr (after_display s (setSpeed d (i2c_preclk s))))"
proof -
  have y: "window_y1 s = 1024" using e by (simp add: dirty_empty_def window_def)
  have fp: "u8 (cdiv (window_y1 s) 8) = 128" by (simp add: y u8_def cdiv_def)
  have "(HEIGHT s + 7) div 8 \<le> 128" "0 \<le> (HEIGHT s + 7) div 8" using H by simp_all
  then have "u8 (cdiv (HEIGHT s + 7) 8) \<le> 128"
    using H by (simp add: u8_def cdiv_def)
  then have "\<not> 128 < u8 (cdiv (HEIGHT s + 7) 8)" by simp
  then show ?thesis
    unfolding display_Some [OF d] fp by (simp add: flush_pages_done)
qed

lemma ops128: "flush_ops oled128 wire =
       [([], [0, 0xB2, 0x10, 0x0A]), ([0x40], [0]),
        ([], [0, 0xB3, 0x10, 0x0A]), ([0x40], [0]),
        ([], [0, 0xB4, 0x10, 0x0A]), ([0x40], [0]),
        ([], [0, 0xB5, 0x10, 0x0A]), ([0x40], [0]),
        ([], [0, 0xB6, 0x10, 0x0A]), ([0x40], [0]),
        ([], [0, 0xB7, 0x10, 0x0A]), ([0x40], [0])]"
  by (simp add: flush_ops_def oled128_def page_ops_def chunk_cap_def wire_def u8_def u16_def
      page_select_cmd_def spec_chunks.simps)

lemma bus_trace_after_display:
  "map xfer_bytes (bus_trace (after_display s (i2c_writes (setSpeed d k) ops))) =
     map xfer_bytes (sent d) @ ops"
  using sent_i2c_writes [of "setSpeed d k" ops]
  by (simp add: bus_trace_def after_display_def setSpeed_def)

lemma flushed_valid:
  assumes "ready s" "i2c_dev s = Some d" "0 < chunk_cap d" "dirty_valid s"
  shows "flushed (display s) = Some (map xfer_bytes (sent d) @ flush_ops s d)"
  unfolding display_valid [OF assms] flushed_def
  by (simp add: bus_trace_after_display)

subsection \<open>The full-buffer revision\<close>

lemma send_pages_ops:
  assumes cap: "0 < maxbuff"
    and fit: "pages * bpp \<le> length (buffer s)"
  shows "ptr = p * bpp \<Longrightarrow> send_pages s pages bpp maxbuff d ptr p =
           Some (Inr (i2c_writes d
             (concat (map (full_page_ops (buffer s) bpp maxbuff) [p..<pages]))))"
proof (induction "pages - p" arbitrary: p d ptr)
  case 0
  then show ?case by (subst send_pages.simps) simp
next
  case (Suc k)
  then have lt: "p < pages" and k: "k = pages - Suc p" by simp_all
  have "Suc p * bpp \<le> pages * bpp" using lt by (intro mult_le_mono1) simp
  then have inb: "p * bpp + bpp \<le> length (buffer s)"
    using fit by simp
  have cmd: "[0x00, of_nat (SH110X_SETPAGEADDR + p), 0x10, 0x00] = page_select_cmd p 0"
    by (simp add: page_select_cmd_def SH110X_SETPAGEADDR_def)
  have up: "[p..<pages] = p # [Suc p..<pages]" using lt by (simp add: upt_conv_Cons)
  have nxt: "p * bpp + bpp = Suc p * bpp" by simp
  show ?case
    apply (subst send_pages.simps)
    apply (simp only: lt if_True Let_def cmd Suc.prems)
    apply (simp only: send_page_data_chunks [OF cap inb])
    apply (simp add: up full_page_ops_def i2c_writes_append Suc.hyps(1) [OF k nxt])
    done
qed

text \<open>
  The full-buffer revision sends every page whole, in chunks of at most
  \<open>maxBufferSize() - 1\<close> bytes.
\<close>

lemma display_full_ops:
  assumes r: "ready s" and d: "i2c_dev s = Some d"
    and m: "2 \<le> maxBufferSize d" "maxBufferSize d \<le> 65536"
  shows "display_full s =
           Some (Inr (s\<lparr>i2c_dev := Some (i2c_writes d
             (concat (map (full_page_ops (buffer s) (nat (WIDTH s)) (maxBufferSize d - 1))
                        [0 ..< nat ((HEIGHT s + 7) div 8)])))\<rparr>))"
proof -
  have W: "0 < WIDTH s" "WIDTH s \<le> 255" and H: "0 < HEIGHT s" "HEIGHT s \<le> 255"
    and len: "length (buffer s) = nat (WIDTH s * cdiv (HEIGHT s + 7) 8)"
    using r by (simp_all add: ready_def)
  have bpp: "u8 (WIDTH s) = nat (WIDTH s)" using W by (simp add: u8_def)
  have pages: "u8 (cdiv (HEIGHT s + 7) 8) = nat ((HEIGHT s + 7) div 8)"
    using H by (simp add: u8_def cdiv_def)
  have mb: "u16 (int (maxBufferSize d) - 1) = maxBufferSize d - 1"
    using m by (simp add: u16_def nat_diff_distrib')
  have cap: "0 < maxBufferSize d - 1" using m by simp
  have "0 \<le> (HEIGHT s + 7) div 8" using H by simp
  then have fit: "nat ((HEIGHT s + 7) div 8) * nat (WIDTH s) \<le> length (buffer s)"
    using W H by (simp add: len cdiv_def nat_mult_distrib mult.commute)
  have z: "(0::nat) = 0 * nat (WIDTH s)" by simp
  show ?thesis
    using cap send_pages_ops [OF cap fit z, of d]
    by (simp add: display_full_def d Let_def bpp pages mb)
qed

subsection \<open>Chunks\<close>






subsection \<open>A chunk bound of zero\<close>

text \<open>
  With a chunk bound of zero and bytes left to send, the data loop writes empty transfers
  and never returns; so does \<open>display()\<close> when \<open>(uint8_t)maxbuff\<close> is zero, that is
  when \<open>maxBufferSize()\<close> is 1 modulo 256.
\<close>

lemma send_page_data_progress:
  "send_page_data buf cap d ptr n = Some r \<Longrightarrow> cap \<noteq> 0 \<or> n = 0 \<or> length buf < ptr"
proof (rule send_page_data.raw_induct
    [where P = "\<lambda>buf cap d ptr n r. cap \<noteq> 0 \<or> n = 0 \<or> length buf < ptr"])
  show "send_page_data buf cap d ptr n = Some r \<Longrightarrow> send_page_data buf cap d ptr n = Some r" .
next
  fix f :: "byte list \<Rightarrow> nat \<Rightarrow> i2c_device \<Rightarrow> nat \<Rightarrow> nat \<Rightarrow> (fault + i2c_device \<times> nat) option"
    and buf cap d ptr n r
  assume ih: "\<And>buf cap d ptr n r. f buf cap d ptr n = Some r \<Longrightarrow>
      cap \<noteq> 0 \<or> n = 0 \<or> length buf < ptr"
    and step: "(if n = 0 then Some (Inr (d, ptr))
      else let to_write = min n cap
           in if length buf < ptr + to_write then Some (Inl OutOfBounds)
              else f buf cap (snd (i2c_write d [0x40] (take to_write (drop ptr buf))))
                    (ptr + to_write) (n - to_write)) = Some r"
  show "cap \<noteq> 0 \<or> n = 0 \<or> length buf < ptr"
  proof (rule ccontr)
    assume "\<not> (cap \<noteq> 0 \<or> n = 0 \<or> length buf < ptr)"
    then have c: "cap = 0" "n \<noteq> 0" "\<not> length buf < ptr" by simp_all
    with step have "f buf cap (snd (i2c_write d [0x40] (take 0 (drop ptr buf)))) ptr n = Some r"
      by (simp add: Let_def)
    from ih [OF this] c show False by simp
  qed
qed

lemma send_page_data_stuck:
  assumes "0 < n" "ptr \<le> length buf"
  shows "send_page_data buf 0 d ptr n = None"
proof (cases "send_page_data buf 0 d ptr n")
  case None
  then show ?thesis .
next
  case (Some r)
  from send_page_data_progress [OF this] assms show ?thesis by simp
qed

lemma display_never_returns:
  assumes r: "ready s" and d: "i2c_dev s = Some d" and cap: "chunk_cap d = 0"
    and v: "dirty_valid s"
  shows "display s = None"
proof -
  have W: "0 < WIDTH s" "WIDTH s \<le> 255" and H: "0 < HEIGHT s" "HEIGHT s \<le> 255"
    and len: "length (buffer s) = nat (WIDTH s * cdiv (HEIGHT s + 7) 8)"
    using r by (simp_all add: ready_def)
  have x: "0 \<le> window_x1 s" "window_x1 s \<le> window_x2 s" "window_x2 s < WIDTH s"
    and y: "0 \<le> window_y1 s" "window_y1 s < HEIGHT s"
    using v by (simp_all add: dirty_valid_def)
  define p where "p = nat (window_y1 s div 8)"
  define n where "n = nat ((HEIGHT s + 7) div 8)"
  define w where "w = nat (WIDTH s)"
  define c where "c = nat (window_x1 s)"
  have bpp: "u8 (WIDTH s) = w" using W by (simp add: u8_def w_def)
  have pages: "u8 (cdiv (HEIGHT s + 7) 8) = n"
    using H by (simp add: u8_def cdiv_def n_def)
  have fp: "u8 (cdiv (window_y1 s) 8) = p"
    using y H by (simp add: u8_def cdiv_def p_def)
  have ps: "min w (u8 (window_x1 s)) = c"
    using x W by (simp add: u8_def w_def c_def)
  have pe: "u8 (max 0 (window_x2 s)) = nat (window_x2 s)"
    using x W by (simp add: u8_def)
  have br: "u8 (int (u8 (int w - int c)) - ((WIDTH s - 1) - int (nat (window_x2 s))))
              = nat (window_x2 s - window_x1 s + 1)"
    using x W by (simp add: u8_def w_def c_def)
  have lt: "p < n" using y H unfolding p_def n_def by (simp add: nat_less_iff) linarith
  have "0 \<le> (HEIGHT s + 7) div 8" using H by simp
  then have L: "length (buffer s) = n * w"
    using W H by (simp add: len cdiv_def nat_mult_distrib mult.commute n_def w_def)
  have "Suc p * w \<le> n * w" using lt by (intro mult_le_mono1) simp
  moreover have "c < w" using x by (simp add: c_def w_def)
  ultimately have inb: "p * w + c \<le> length (buffer s)" unfolding L by simp
  have pos: "0 < nat (window_x2 s - window_x1 s + 1)" using x by simp
  have cap': "u8 (int (u16 (int (maxBufferSize d) - 1))) = 0"
    using cap by (simp add: chunk_cap_def)
  have "flush_pages s n w c (nat (window_x2 s)) (u16 (int (maxBufferSize d) - 1))
          (setSpeed d (i2c_preclk s)) p = None"
    apply (subst flush_pages.simps)
    apply (simp only: lt if_True Let_def br cap')
    apply (simp add: send_page_data_stuck [OF pos inb])
    done
  then show ?thesis
    unfolding display_Some [OF d] bpp pages fp ps pe by simp
qed

subsection \<open>Properties of the refresh\<close>


lemma strip_ops:
  "flush_ops strip nacking_wire =
     [([], [0, 0xB0, 0x10, 0]), ([0x40], [1, 2]), ([0x40], [3, 4]),
      ([], [0, 0xB1, 0x10, 0]), ([0x40], [5, 6]), ([0x40], [7, 8])]"
  by (simp add: flush_ops_def strip_def page_ops_def chunk_cap_def nacking_wire_def
      u8_def u16_def page_select_cmd_def spec_chunks.simps upt_conv_Cons)

lemma strip_display:
  "display strip = Some (Inr (after_display strip
     (i2c_writes (setSpeed nacking_wire (i2c_preclk strip)) (flush_ops strip nacking_wire))))"
proof -
  have r: "ready strip" by (simp add: ready_def strip_def cdiv_def)
  have d: "i2c_dev strip = Some nacking_wire" by (simp add: strip_def)
  have c: "0 < chunk_cap nacking_wire"
    by (simp add: chunk_cap_def nacking_wire_def u8_def u16_def)
  have v: "dirty_valid strip" by (simp add: dirty_valid_def strip_def)
  show ?thesis by (rule display_valid [OF r d c v])
qed

text \<open>
  Against C1 as stated: a flush whose first data write is answered with a NACK (the second write of the
  trace): \<open>display()\<close> goes on to send the five remaining transfers of both pages and
  leaves the dirty window at the empty sentinel.
\<close>

theorem flush_failure_counterexample:
  "outcome (display strip) =
     Some ([Xfer [] [0, 0xB0, 0x10, 0] True, Xfer [0x40] [1, 2] False, Xfer [0x40] [3, 4] True,
            Xfer [] [0, 0xB1, 0x10, 0] True, Xfer [0x40] [5, 6] True, Xfer [0x40] [7, 8] True],
           (1024, 1024, - 1, - 1))"
  unfolding strip_display strip_ops
  by (simp add: outcome_def bus_trace_def after_display_def window_def setSpeed_def
      i2c_write_def nacking_wire_def)

lemma ready_i2c_dev_update: "ready (s\<lparr>i2c_dev := x\<rparr>) = ready s"
  by (simp add: ready_def)

lemma dirty_valid_i2c_dev_update: "dirty_valid (s\<lparr>i2c_dev := x\<rparr>) = dirty_valid s"
  by (simp add: dirty_valid_def)

lemma flush_ops_acks: "flush_ops (s\<lparr>i2c_dev := x\<rparr>) (d\<lparr>acks := a\<rparr>) = flush_ops s d"
  by (simp add: flush_ops_def chunk_cap_def)

lemma window_after_display: "window (after_display s d) = (1024, 1024, - 1, - 1)"
  by (simp add: window_def after_display_def)

lemma display_result:
  assumes "display s = Some (Inr s')"
  shows "\<exists>d'. s' = after_display s d'"
proof (cases "i2c_dev s")
  case None
  then show ?thesis using assms by (simp add: display_def)
next
  case (Some d)
  show ?thesis
    using assms unfolding display_Some [OF Some]
    by (auto split: option.splits sum.splits)
qed

text \<open>
  C1, as the code has it. Whatever the transport answers (\<open>a\<close> is any list of
  write results), \<open>display()\<close> returns, has attempted the same transfers in the same
  order, those of \<open>flush_ops\<close>, which do not depend on the answers, and has reset the
  dirty window to the empty sentinel. The call returns no status.
\<close>

theorem display_ignores_write_results:
  assumes "ready s" and "i2c_dev s = Some d" and "0 < chunk_cap d" and "dirty_valid s"
  shows "\<exists>s'. display (s\<lparr>i2c_dev := Some (d\<lparr>acks := a\<rparr>)\<rparr>) = Some (Inr s') \<and>
           map xfer_bytes (bus_trace s') = map xfer_bytes (sent d) @ flush_ops s d \<and>
           window s' = (1024, 1024, - 1, - 1)"
proof -
  define s0 where "s0 = s\<lparr>i2c_dev := Some (d\<lparr>acks := a\<rparr>)\<rparr>"
  have r: "ready s0" using assms(1) by (simp add: s0_def ready_i2c_dev_update)
  have d: "i2c_dev s0 = Some (d\<lparr>acks := a\<rparr>)" by (simp add: s0_def)
  have c: "0 < chunk_cap (d\<lparr>acks := a\<rparr>)" using assms(3) by (simp add: chunk_cap_def)
  have v: "dirty_valid s0" using assms(4) by (simp add: s0_def dirty_valid_i2c_dev_update)
  have o: "flush_ops s0 (d\<lparr>acks := a\<rparr>) = flush_ops s d"
    by (simp add: s0_def flush_ops_acks)
  have "map xfer_bytes (bus_trace (after_display s0
          (i2c_writes (setSpeed (d\<lparr>acks := a\<rparr>) (i2c_preclk s0)) (flush_ops s d)))) =
        map xfer_bytes (sent d) @ flush_ops s d"
    by (simp add: bus_trace_after_display)
  then show ?thesis
    using display_valid [OF r d c v] window_after_display
    by (simp add: o flip: s0_def)
qed

theorem display_ignores_write_results_witness:
  "ready strip \<and> i2c_dev strip = Some nacking_wire \<and> 0 < chunk_cap nacking_wire \<and>
   dirty_valid strip \<and>
   (\<exists>s'. display (strip\<lparr>i2c_dev := Some (nacking_wire\<lparr>acks := [False, False, False]\<rparr>)\<rparr>)
            = Some (Inr s') \<and>
      map xfer_bytes (bus_trace s') =
        map xfer_bytes (sent nacking_wire) @ flush_ops strip nacking_wire \<and>
      window s' = (1024, 1024, - 1, - 1))"
proof -
  have r: "ready strip" by (simp add: ready_def strip_def cdiv_def)
  have d: "i2c_dev strip = Some nacking_wire" by (simp add: strip_def)
  have c: "0 < chunk_cap nacking_wire"
    by (simp add: chunk_cap_def nacking_wire_def u8_def u16_def)
  have v: "dirty_valid strip" by (simp add: dirty_valid_def strip_def)
  from display_ignores_write_results [OF r d c v, of "[False, False, False]"] r d c v
  show ?thesis by (intro conjI)
qed

text \<open>
  C8. With the dirty window at the empty sentinel, \<open>display()\<close> returns and the trace
  of the transport is what it was: no page-select command and no data transfer. Hence
  a second \<open>display()\<close> right after one that returned adds nothing to the trace. The
  display is at most 1024 rows high, the sentinel being larger than any coordinate.
\<close>

theorem empty_flush_sends_nothing:
  assumes "i2c_dev s = Some d" and "0 \<le> HEIGHT s" and "HEIGHT s \<le> 1024"
  shows "(dirty_empty s \<longrightarrow>
            (\<exists>s'. display s = Some (Inr s') \<and> bus_trace s' = bus_trace s \<and> dirty_empty s')) \<and>
         (\<forall>s1. display s = Some (Inr s1) \<longrightarrow>
            (\<exists>s2. display s1 = Some (Inr s2) \<and> bus_trace s2 = bus_trace s1))"
proof (intro conjI impI allI)
  assume e: "dirty_empty s"
  have "bus_trace (after_display s (setSpeed d (i2c_preclk s))) = bus_trace s"
    using assms(1) by (simp add: bus_trace_def after_display_def setSpeed_def)
  moreover have "dirty_empty (after_display s (setSpeed d (i2c_preclk s)))"
    by (simp add: dirty_empty_def window_after_display)
  ultimately show "\<exists>s'. display s = Some (Inr s') \<and> bus_trace s' = bus_trace s \<and> dirty_empty s'"
    using display_empty [OF assms e] by simp
next
  fix s1
  assume "display s = Some (Inr s1)"
  then obtain d1 where s1: "s1 = after_display s d1" using display_result by blast
  have d: "i2c_dev s1 = Some (setSpeed d1 (i2c_postclk s))" by (simp add: s1 after_display_def)
  have h: "0 \<le> HEIGHT s1" "HEIGHT s1 \<le> 1024" using assms by (simp_all add: s1 after_display_def)
  have e: "dirty_empty s1" by (simp add: s1 dirty_empty_def window_after_display)
  have "bus_trace (after_display s1 (setSpeed (setSpeed d1 (i2c_postclk s)) (i2c_preclk s1)))
          = bus_trace s1"
    using d by (simp add: bus_trace_def after_display_def setSpeed_def)
  then show "\<exists>s2. display s1 = Some (Inr s2) \<and> bus_trace s2 = bus_trace s1"
    using display_empty [OF d h e] by simp
qed

text \<open>
  C9, at the failing input. With a null \<open>i2c_dev\<close>, both revisions of \<open>display()\<close>
  dereference it to call \<open>maxBufferSize()\<close>: the test \<open>if (i2c_dev)\<close> comes after.
\<close>

theorem display_null_transport:
  assumes "i2c_dev s = None"
  shows "display s = Some (Inl NullPointer) \<and> display_full s = Some (Inl NullPointer)"
  using assms by (simp add: display_def display_full_def)

theorem display_null_transport_witness:
  "i2c_dev panel = None \<and> display panel = Some (Inl NullPointer) \<and>
   display_full panel = Some (Inl NullPointer)"
proof -
  have n: "i2c_dev panel = None" by (simp add: panel_def)
  from display_null_transport [OF n] n show ?thesis by (intro conjI) simp_all
qed

lemma ready_oled128: "ready oled128"
  by (simp add: ready_def oled128_def cdiv_def)

lemma chunk_cap_wire: "chunk_cap wire = 31"
  by (simp add: chunk_cap_def wire_def u8_def u16_def)


theorem empty_flush_sends_nothing_witness:
  "i2c_dev idle128 = Some wire \<and> 0 \<le> HEIGHT idle128 \<and> HEIGHT idle128 \<le> 1024 \<and>
   dirty_empty idle128 \<and>
   (\<exists>s'. display idle128 = Some (Inr s') \<and> bus_trace s' = bus_trace idle128 \<and> dirty_empty s') \<and>
   (\<exists>s1 s2. display oled128 = Some (Inr s1) \<and> display s1 = Some (Inr s2) \<and>
      bus_trace s2 = bus_trace s1)"
proof -
  have d: "i2c_dev idle128 = Some wire" and h: "0 \<le> HEIGHT idle128" "HEIGHT idle128 \<le> 1024"
    and e: "dirty_empty idle128"
    by (simp_all add: idle128_def oled128_def dirty_empty_def window_def)
  have d': "i2c_dev oled128 = Some wire" and h': "0 \<le> HEIGHT oled128" "HEIGHT oled128 \<le> 1024"
    by (simp_all add: oled128_def)
  have c: "0 < chunk_cap wire" by (simp add: chunk_cap_wire)
  have v: "dirty_valid oled128" by (simp add: dirty_valid_def oled128_def)
  note first = display_valid [OF ready_oled128 d' c v]
  from empty_flush_sends_nothing [OF d h] e
  have a: "\<exists>s'. display idle128 = Some (Inr s') \<and> bus_trace s' = bus_trace idle128 \<and>
      dirty_empty s'" by blast
  from empty_flush_sends_nothing [OF d' h'] first
  have b: "\<exists>s1 s2. display oled128 = Some (Inr s1) \<and> display s1 = Some (Inr s2) \<and>
      bus_trace s2 = bus_trace s1" by blast
  from d h e a b show ?thesis by (intro conjI)
qed







text \<open>
  C2, at the failing input. A 128 by 64 display whose dirty window is the single pixel
  (10, 20), on a 32-byte transport: \<open>display()\<close> selects pages 2 to 7 (commands
  \<open>0xB2\<close> to \<open>0xB7\<close>, start column 10) and sends column 10 of each, six page-select
  commands where the dirty window touches page 2 only.
\<close>

theorem single_pixel_flush_selects_six_pages:
  "flushed (display oled128) =
     Some [([], [0, 0xB2, 0x10, 0x0A]), ([0x40], [0]),
           ([], [0, 0xB3, 0x10, 0x0A]), ([0x40], [0]),
           ([], [0, 0xB4, 0x10, 0x0A]), ([0x40], [0]),
           ([], [0, 0xB5, 0x10, 0x0A]), ([0x40], [0]),
           ([], [0, 0xB6, 0x10, 0x0A]), ([0x40], [0]),
           ([], [0, 0xB7, 0x10, 0x0A]), ([0x40], [0])]"
proof -
  have d: "i2c_dev oled128 = Some wire" by (simp add: oled128_def)
  have c: "0 < chunk_cap wire" by (simp add: chunk_cap_wire)
  have v: "dirty_valid oled128" by (simp add: dirty_valid_def oled128_def)
  have e: "sent wire = []" by (simp add: wire_def)
  show ?thesis
    unfolding flushed_valid [OF ready_oled128 d c v] ops128 e by simp
qed

end
